theory Spec2Isabelle
  imports Complex_Main
begin

section \<open>The numbers of the program\<close>

text \<open>
  Every value the numeric core handles is a TypeScript \<^verbatim>\<open>number\<close>. Such a value is
  either the special value NaN, one of the two infinities, or a finite number. The model
  keeps the three special values apart, because the operators of the language treat them
  apart, and carries a finite value as a real number. The finite values that the program
  can hold are the binary64 doubles; \<open>double\<close> below says which reals they are. The two
  zeros of the format are one value \<open>Fin 0\<close>.

  The operators of this section give the exact result of an operation: the special
  values as the language treats them, and on finite values the result of real arithmetic.
  The operators of the program round that result to the nearest double; they are defined
  in the next section. The functions \<open>clip\<close>, \<open>scale\<close>, \<open>invert\<close>, \<open>rf\<close> with
  \<open>coin\<close>, \<open>average\<close> and the filter are written with the exact operators, and the
  claims about clipping, inversion, the coin and the filter are stated on them. The claims
  about the interval of the random generators, about the mean that \<open>average\<close> returns
  and about the polar coordinates depend on rounding and overflow: they are stated on
  \<open>rf_binary64\<close>, \<open>ri_binary64\<close>, \<open>average_binary64\<close> and \<open>toPolar_binary64\<close>,
  the same functions written with the rounded operators.
\<close>

datatype number = NaN | NegInf | Fin real | PosInf

text \<open>Unary minus, and the four arithmetic operators \<^verbatim>\<open>+ - * /\<close> on numbers.\<close>

fun Number_unaryMinus :: "number \<Rightarrow> number" where
  "Number_unaryMinus NaN = NaN"
| "Number_unaryMinus NegInf = PosInf"
| "Number_unaryMinus PosInf = NegInf"
| "Number_unaryMinus (Fin a) = Fin (- a)"

fun Number_add :: "number \<Rightarrow> number \<Rightarrow> number" where
  "Number_add NaN b = NaN"
| "Number_add a NaN = NaN"
| "Number_add (Fin a) (Fin b) = Fin (a + b)"
| "Number_add (Fin a) PosInf = PosInf"
| "Number_add (Fin a) NegInf = NegInf"
| "Number_add PosInf (Fin b) = PosInf"
| "Number_add NegInf (Fin b) = NegInf"
| "Number_add PosInf PosInf = PosInf"
| "Number_add NegInf NegInf = NegInf"
| "Number_add PosInf NegInf = NaN"
| "Number_add NegInf PosInf = NaN"

definition Number_subtract :: "number \<Rightarrow> number \<Rightarrow> number" where
  "Number_subtract a b = Number_add a (Number_unaryMinus b)"

fun Number_multiply :: "number \<Rightarrow> number \<Rightarrow> number" where
  "Number_multiply NaN b = NaN"
| "Number_multiply a NaN = NaN"
| "Number_multiply (Fin a) (Fin b) = Fin (a * b)"
| "Number_multiply (Fin a) PosInf = (if a = 0 then NaN else if 0 < a then PosInf else NegInf)"
| "Number_multiply (Fin a) NegInf = (if a = 0 then NaN else if 0 < a then NegInf else PosInf)"
| "Number_multiply PosInf (Fin b) = (if b = 0 then NaN else if 0 < b then PosInf else NegInf)"
| "Number_multiply NegInf (Fin b) = (if b = 0 then NaN else if 0 < b then NegInf else PosInf)"
| "Number_multiply PosInf PosInf = PosInf"
| "Number_multiply NegInf NegInf = PosInf"
| "Number_multiply PosInf NegInf = NegInf"
| "Number_multiply NegInf PosInf = NegInf"

text \<open>
  Division by the zero \<open>Fin 0\<close> is division by the positive zero: a positive dividend
  gives \<open>PosInf\<close>, a negative one \<open>NegInf\<close>, and zero by zero is NaN.
\<close>

fun Number_divide :: "number \<Rightarrow> number \<Rightarrow> number" where
  "Number_divide NaN b = NaN"
| "Number_divide a NaN = NaN"
| "Number_divide (Fin a) (Fin b) =
     (if b = 0 then (if a = 0 then NaN else if 0 < a then PosInf else NegInf)
      else Fin (a / b))"
| "Number_divide (Fin a) PosInf = Fin 0"
| "Number_divide (Fin a) NegInf = Fin 0"
| "Number_divide PosInf (Fin b) = (if 0 \<le> b then PosInf else NegInf)"
| "Number_divide NegInf (Fin b) = (if 0 \<le> b then NegInf else PosInf)"
| "Number_divide PosInf PosInf = NaN"
| "Number_divide NegInf NegInf = NaN"
| "Number_divide PosInf NegInf = NaN"
| "Number_divide NegInf PosInf = NaN"

text \<open>
  The comparison \<^verbatim>\<open>a < b\<close>: false as soon as one side is NaN. The other three
  comparisons and the strict equality \<^verbatim>\<open>===\<close> are written from it as the language
  defines them.
\<close>

fun Number_lessThan :: "number \<Rightarrow> number \<Rightarrow> bool" where
  "Number_lessThan NaN b = False"
| "Number_lessThan a NaN = False"
| "Number_lessThan (Fin a) (Fin b) = (a < b)"
| "Number_lessThan (Fin a) PosInf = True"
| "Number_lessThan (Fin a) NegInf = False"
| "Number_lessThan PosInf b = False"
| "Number_lessThan NegInf (Fin b) = True"
| "Number_lessThan NegInf PosInf = True"
| "Number_lessThan NegInf NegInf = False"

definition Number_greaterThan :: "number \<Rightarrow> number \<Rightarrow> bool" where
  "Number_greaterThan a b = Number_lessThan b a"

definition Number_lessEqual :: "number \<Rightarrow> number \<Rightarrow> bool" where
  "Number_lessEqual a b = (a \<noteq> NaN \<and> b \<noteq> NaN \<and> \<not> Number_lessThan b a)"

definition Number_greaterEqual :: "number \<Rightarrow> number \<Rightarrow> bool" where
  "Number_greaterEqual a b = (a \<noteq> NaN \<and> b \<noteq> NaN \<and> \<not> Number_lessThan a b)"


text \<open>Truthiness of a number: every number but zero and NaN is truthy.\<close>

definition ToBoolean :: "number \<Rightarrow> bool" where
  "ToBoolean a = (a \<noteq> NaN \<and> a \<noteq> Fin 0)"

section \<open>Rounding to binary64\<close>

text \<open>
  A binary64 double has a significand of 53 bits and an exponent from \<open>- 1022\<close> to
  1023. \<open>expo r\<close> is the exponent of the binade of \<open>r\<close>, not below \<open>- 1022\<close>, where
  the subnormal numbers start; \<open>ulp r\<close> is the distance between neighbouring doubles
  there. \<open>nearest r\<close> is the multiple of \<open>ulp r\<close> nearest to \<open>r\<close>, the even multiple
  when two are equally near (\<open>rne\<close> rounds to the nearest integer, a half to the even
  one). \<open>binary64 r\<close> is the number that an operation with the exact result \<open>r\<close>
  returns: an infinity from \<open>2 ^ 1024 - 2 ^ 970\<close> on, which is half a step above the
  largest double, and \<open>nearest r\<close> below that.
\<close>

definition rne :: "real \<Rightarrow> int" where
  "rne q =
     (let f = \<lfloor>q\<rfloor>
      in if q - of_int f < 1 / 2 then f
         else if 1 / 2 < q - of_int f then f + 1
         else if even f then f else f + 1)"

definition expo :: "real \<Rightarrow> int" where
  "expo r = max \<lfloor>log 2 \<bar>r\<bar>\<rfloor> (- 1022)"

definition ulp :: "real \<Rightarrow> real" where
  "ulp r = 2 powi (expo r - 52)"

definition nearest :: "real \<Rightarrow> real" where
  "nearest r = of_int (rne (r / ulp r)) * ulp r"

definition binary64 :: "real \<Rightarrow> number" where
  "binary64 r =
     (if 2 ^ 1024 - 2 ^ 970 \<le> \<bar>r\<bar> then (if 0 < r then PosInf else NegInf)
      else Fin (nearest r))"

text \<open>A real is a double when rounding leaves it as it is.\<close>

definition double :: "real \<Rightarrow> bool" where
  "double r = (binary64 r = Fin r)"

text \<open>
  The operators \<^verbatim>\<open>+ - * /\<close> of the program: the exact result, rounded when it is
  finite.
\<close>

fun rounded :: "number \<Rightarrow> number" where
  "rounded (Fin r) = binary64 r"
| "rounded a = a"

definition binary64_add :: "number \<Rightarrow> number \<Rightarrow> number" where
  "binary64_add a b = rounded (Number_add a b)"

definition binary64_subtract :: "number \<Rightarrow> number \<Rightarrow> number" where
  "binary64_subtract a b = rounded (Number_subtract a b)"

definition binary64_multiply :: "number \<Rightarrow> number \<Rightarrow> number" where
  "binary64_multiply a b = rounded (Number_multiply a b)"

definition binary64_divide :: "number \<Rightarrow> number \<Rightarrow> number" where
  "binary64_divide a b = rounded (Number_divide a b)"

section \<open>The functions of \<^verbatim>\<open>Math\<close> that the program calls\<close>

fun Math_max :: "number \<Rightarrow> number \<Rightarrow> number" where
  "Math_max NaN b = NaN"
| "Math_max a NaN = NaN"
| "Math_max a b = (if Number_lessThan a b then b else a)"

fun Math_min :: "number \<Rightarrow> number \<Rightarrow> number" where
  "Math_min NaN b = NaN"
| "Math_min a NaN = NaN"
| "Math_min a b = (if Number_lessThan b a then b else a)"

text \<open>
  \<^verbatim>\<open>Math.floor\<close> of a double is a double, so it needs no rounding.
  \<^verbatim>\<open>Math.sqrt\<close> returns the exact square root rounded to the nearest double.
\<close>

fun Math_floor :: "number \<Rightarrow> number" where
  "Math_floor (Fin a) = Fin (of_int \<lfloor>a\<rfloor>)"
| "Math_floor a = a"

fun Math_sqrt :: "number \<Rightarrow> number" where
  "Math_sqrt (Fin a) = (if a < 0 then NaN else Fin (sqrt a))"
| "Math_sqrt PosInf = PosInf"
| "Math_sqrt a = NaN"

definition binary64_sqrt :: "number \<Rightarrow> number" where
  "binary64_sqrt a = rounded (Math_sqrt a)"

text \<open>\<^verbatim>\<open>Math.PI\<close> is the double nearest to \<open>pi\<close>, 3.141592653589793.\<close>

definition Math_PI :: number where
  "Math_PI = Fin (884279719003555 / 2 ^ 48)"

text \<open>
  The language fixes \<^verbatim>\<open>Math.atan2(y, x)\<close> on NaN: the result is NaN when an argument
  is. On other arguments the result is an approximation of the angle of the point
  \<open>(x, y)\<close> that the language leaves to the implementation, within the inclusive
  interval from \<open>- pi\<close> to \<open>pi\<close>. The model takes the function of the platform as an
  argument \<open>platform\<close>, with the arguments in the order of the call.
\<close>

definition Math_atan2 ::
  "(number \<Rightarrow> number \<Rightarrow> number) \<Rightarrow> number \<Rightarrow> number \<Rightarrow> number" where
  "Math_atan2 platform b a = (if b = NaN \<or> a = NaN then NaN else platform b a)"

text \<open>
  One such platform, used where a statement needs a definite one: \<open>nearest_atan2\<close>
  returns the exact angle rounded to the nearest double, kept between \<open>- Math_PI\<close> and
  \<open>Math_PI\<close>. The exact angle \<open>atan2\<close> is written with the arc tangent quadrant by
  quadrant, and \<open>exact_atan2\<close> adds the values that the language gives on the
  infinities.
\<close>

definition atan2 :: "real \<Rightarrow> real \<Rightarrow> real" where
  "atan2 b a =
     (if 0 < a then arctan (b / a)
      else if a < 0 then (if 0 \<le> b then arctan (b / a) + pi else arctan (b / a) - pi)
      else if 0 < b then pi / 2
      else if b < 0 then - (pi / 2)
      else 0)"

fun exact_atan2 :: "number \<Rightarrow> number \<Rightarrow> number" where
  "exact_atan2 NaN a = NaN"
| "exact_atan2 b NaN = NaN"
| "exact_atan2 (Fin b) (Fin a) = Fin (atan2 b a)"
| "exact_atan2 (Fin b) PosInf = Fin 0"
| "exact_atan2 (Fin b) NegInf = (if 0 \<le> b then Fin pi else Fin (- pi))"
| "exact_atan2 PosInf (Fin a) = Fin (pi / 2)"
| "exact_atan2 NegInf (Fin a) = Fin (- (pi / 2))"
| "exact_atan2 PosInf PosInf = Fin (pi / 4)"
| "exact_atan2 PosInf NegInf = Fin (3 * pi / 4)"
| "exact_atan2 NegInf PosInf = Fin (- (pi / 4))"
| "exact_atan2 NegInf NegInf = Fin (- (3 * pi / 4))"

definition nearest_atan2 :: "number \<Rightarrow> number \<Rightarrow> number" where
  "nearest_atan2 b a =
     Math_min (Math_max (rounded (exact_atan2 b a)) (Number_unaryMinus Math_PI)) Math_PI"

section \<open>Clipping\<close>

text \<open>
  \<^verbatim>\<open>export function clip(value, min, max) { return Math.min(Math.max(value, min), max); }\<close>
\<close>

definition clip :: "number \<Rightarrow> number \<Rightarrow> number \<Rightarrow> number" where
  "clip val mn mx = Math_min (Math_max val mn) mx"

section \<open>Rescaling and inversion\<close>



section \<open>Polar coordinates\<close>

text \<open>
  \<^verbatim>\<open>export function toPolar(x, y) {
    const r = Math.sqrt(x * x + y * y);
    let theta = Math.atan2(y, x);
    if (theta < 0) { theta = theta + (2 * Math.PI); }
    return { radius: r, angle: theta };
  }\<close>
  The interface \<^verbatim>\<open>PolarCoord\<close> is a record. Its field names are constants from here
  on, so the arguments of the function are written \<open>px\<close> and \<open>py\<close>.
\<close>

record PolarCoord =
  radius :: number
  angle :: number

definition toPolar_binary64 ::
  "(number \<Rightarrow> number \<Rightarrow> number) \<Rightarrow> number \<Rightarrow> number \<Rightarrow> PolarCoord" where
  "toPolar_binary64 platform px py =
     (let r = binary64_sqrt (binary64_add (binary64_multiply px px) (binary64_multiply py py));
          theta = Math_atan2 platform py px;
          theta' = (if Number_lessThan theta (Fin 0)
                    then binary64_add theta (binary64_multiply (Fin 2) Math_PI)
                    else theta)
      in \<lparr>radius = r, angle = theta'\<rparr>)"

section \<open>Random numbers\<close>

text \<open>
  \<^verbatim>\<open>Math.random()\<close> is the only effect of this part of the program. Each of \<open>ri\<close>,
  \<open>rf\<close> and \<open>coin\<close> calls it exactly once, so the model takes the number that the call
  returns as a first argument \<open>random\<close>; the language promises that it is at least 0 and
  below 1.

  The second bound may be left out by a caller: it is an optional number, \<open>None\<close> when
  absent. The test \<^verbatim>\<open>!bound2\<close> holds when it is absent, zero or NaN, and then the only
  bound given becomes the second one and the first becomes 0.

  \<^verbatim>\<open>export function rf(bound1, bound2) {
    if (!bound2) { bound2 = bound1; bound1 = 0; }
    var low = Math.min(bound1, bound2);
    var high = Math.max(bound1, bound2);
    return Math.random() * (high - low) + low;
  }\<close>
\<close>

definition rf :: "number \<Rightarrow> number \<Rightarrow> number option \<Rightarrow> number" where
  "rf random bound1 bound2 =
     (case (case bound2 of
              None \<Rightarrow> (Fin 0, bound1)
            | Some b \<Rightarrow> if ToBoolean b then (bound1, b) else (Fin 0, bound1))
      of (b1, b2) \<Rightarrow>
        let low = Math_min b1 b2; high = Math_max b1 b2
        in Number_add (Number_multiply random (Number_subtract high low)) low)"

text \<open>
  The same function with the operators of the program, and \<open>ri\<close>, which is \<open>rf\<close>
  with \<^verbatim>\<open>Math.floor\<close> around the returned expression.
\<close>

definition rf_binary64 :: "number \<Rightarrow> number \<Rightarrow> number option \<Rightarrow> number" where
  "rf_binary64 random bound1 bound2 =
     (case (case bound2 of
              None \<Rightarrow> (Fin 0, bound1)
            | Some b \<Rightarrow> if ToBoolean b then (bound1, b) else (Fin 0, bound1))
      of (b1, b2) \<Rightarrow>
        let low = Math_min b1 b2; high = Math_max b1 b2
        in binary64_add (binary64_multiply random (binary64_subtract high low)) low)"

definition ri_binary64 :: "number \<Rightarrow> number \<Rightarrow> number option \<Rightarrow> number" where
  "ri_binary64 random bound1 bound2 =
     (case (case bound2 of
              None \<Rightarrow> (Fin 0, bound1)
            | Some b \<Rightarrow> if ToBoolean b then (bound1, b) else (Fin 0, bound1))
      of (b1, b2) \<Rightarrow>
        let low = Math_min b1 b2; high = Math_max b1 b2
        in Math_floor
             (binary64_add (binary64_multiply random (binary64_subtract high low)) low))"

text \<open>
  \<^verbatim>\<open>export function coin(odds = 0.5) { return rf(0, 1) < odds ? 1 : 0; }\<close>
  The default applies when the argument is absent.
\<close>

definition coin :: "number \<Rightarrow> number option \<Rightarrow> number" where
  "coin random odds =
     (if Number_lessThan (rf random (Fin 0) (Some (Fin 1)))
           (case odds of None \<Rightarrow> Fin (1 / 2) | Some p \<Rightarrow> p)
      then Fin 1 else Fin 0)"

section \<open>Arrays of numbers\<close>

text \<open>
  \<^verbatim>\<open>Array.prototype.reduce(callback, initialValue)\<close> folds from the left. It throws a
  TypeError in one case only: no initial value and an empty array.
\<close>

datatype error = TypeError

fun Array_reduce ::
  "(number \<Rightarrow> number \<Rightarrow> number) \<Rightarrow> number option \<Rightarrow> number list \<Rightarrow> error + number" where
  "Array_reduce f (Some initialValue) data = Inr (foldl f initialValue data)"
| "Array_reduce f None [] = Inl TypeError"
| "Array_reduce f None (d # data) = Inr (foldl f d data)"


text \<open>The same function with the operators of the program.\<close>

definition average_binary64 :: "number list \<Rightarrow> error + number" where
  "average_binary64 data =
     (case Array_reduce (\<lambda>a b. binary64_add a b) (Some (Fin 0)) data of
        Inl e \<Rightarrow> Inl e
      | Inr summed \<Rightarrow> Inr (binary64_divide summed (Fin (real (length data)))))"

text \<open>
  \<^verbatim>\<open>Array.prototype.splice(0, deleteCount)\<close> removes elements from the front of the
  array. The count is first made an integer by \<open>ToIntegerOrInfinity\<close> (NaN becomes 0,
  a fraction is cut off towards zero, an infinity stays) and then clamped between 0 and
  the length by \<open>actualDeleteCount\<close>, whose first argument is that integer.
\<close>

definition trunc :: "real \<Rightarrow> int" where
  "trunc a = (if 0 \<le> a then \<lfloor>a\<rfloor> else \<lceil>a\<rceil>)"

fun ToIntegerOrInfinity :: "number \<Rightarrow> number" where
  "ToIntegerOrInfinity NaN = Fin 0"
| "ToIntegerOrInfinity (Fin a) = Fin (of_int (trunc a))"
| "ToIntegerOrInfinity a = a"

fun actualDeleteCount :: "number \<Rightarrow> nat \<Rightarrow> nat" where
  "actualDeleteCount PosInf len = len"
| "actualDeleteCount (Fin a) len = nat (min (max \<lfloor>a\<rfloor> 0) (int len))"
| "actualDeleteCount a len = 0"

definition Array_splice0 :: "number \<Rightarrow> 'a list \<Rightarrow> 'a list" where
  "Array_splice0 deleteCount data =
     drop (actualDeleteCount (ToIntegerOrInfinity deleteCount) (length data)) data"

section \<open>The moving average filter\<close>

text \<open>
  \<^verbatim>\<open>export default class Lowpass {
    factor: number;
    history: number[];
    constructor(factor) { this.factor = factor || 2; this.history = [] }
    update(value) {
      this.history.push(value);
      if (this.history.length > this.factor) {
        this.history.splice(0, this.history.length - this.factor);
      }
      const val = this.history.reduce((a, b) => a + b, 0) / this.history.length;
      return val;
    }
  }\<close>
  An instance is a record of its two fields. The constructor's argument is an optional
  number, \<open>None\<close> when the caller gives none. \<open>update\<close> returns the value it computes
  together with the instance as it leaves it.
\<close>

record Lowpass =
  factor :: number
  history :: "number list"

definition Lowpass_constructor :: "number option \<Rightarrow> Lowpass" where
  "Lowpass_constructor arg =
     \<lparr>factor = (case arg of None \<Rightarrow> Fin 2 | Some f \<Rightarrow> if ToBoolean f then f else Fin 2),
      history = []\<rparr>"

definition Lowpass_update :: "Lowpass \<Rightarrow> number \<Rightarrow> error + (number \<times> Lowpass)" where
  "Lowpass_update this val =
     (let pushed = history this @ [val];
          trimmed =
            (if Number_greaterThan (Fin (real (length pushed))) (factor this)
             then Array_splice0
                    (Number_subtract (Fin (real (length pushed))) (factor this)) pushed
             else pushed)
      in case Array_reduce (\<lambda>a b. Number_add a b) (Some (Fin 0)) trimmed of
           Inl e \<Rightarrow> Inl e
         | Inr summed \<Rightarrow>
             Inr (Number_divide summed (Fin (real (length trimmed))),
                  this\<lparr>history := trimmed\<rparr>))"

text \<open>
  A caller feeds a stream of samples to one instance, one \<open>update\<close> per sample.
  \<open>Lowpass_feed\<close> is that caller: it returns the values the updates returned, in order,
  and the instance after the last one, or the first error.
\<close>

fun Lowpass_feed :: "Lowpass \<Rightarrow> number list \<Rightarrow> error + (number list \<times> Lowpass)" where
  "Lowpass_feed this [] = Inr ([], this)"
| "Lowpass_feed this (v # vs) =
     (case Lowpass_update this v of
        Inl e \<Rightarrow> Inl e
      | Inr (r, this') \<Rightarrow>
          (case Lowpass_feed this' vs of
             Inl e \<Rightarrow> Inl e
           | Inr (rs, this'') \<Rightarrow> Inr (r # rs, this'')))"


section \<open>Notions of the specification\<close>

text \<open>
  A number lies in the half-open interval from \<open>lo\<close> (included) to \<open>hi\<close> (excluded),
  or in the closed interval from \<open>lo\<close> to \<open>hi\<close> (both included).
\<close>

definition in_half_open :: "number \<Rightarrow> number \<Rightarrow> number \<Rightarrow> bool" where
  "in_half_open lo hi a = (Number_lessEqual lo a \<and> Number_lessThan a hi)"

definition in_closed :: "number \<Rightarrow> number \<Rightarrow> number \<Rightarrow> bool" where
  "in_closed lo hi a = (Number_lessEqual lo a \<and> Number_lessEqual a hi)"

text \<open>
  The sums that a left fold of \<open>+\<close> from \<open>s\<close> passes through, in exact arithmetic.
\<close>

fun running_sums :: "real \<Rightarrow> real list \<Rightarrow> real list" where
  "running_sums s [] = []"
| "running_sums s (r # rs) = (s + r) # running_sums (s + r) rs"

section \<open>Properties of the comparisons\<close>

lemma lessThan_not_NaN: "Number_lessThan a b \<Longrightarrow> a \<noteq> NaN \<and> b \<noteq> NaN"
  by (cases a; cases b) simp_all

section \<open>Claims about clip\<close>

text \<open>
  C1, as the specification words it, says that \<open>clip\<close> returns its lower limit whenever
  the lower limit is above the upper one. The code takes the minimum last, so the upper
  limit wins: with limits 10 and 0 the value 5 is clipped to 0, not to 10.
\<close>

theorem clip_crossed_limits_counterexample:
  "Number_greaterThan (Fin 10) (Fin 0) \<and> clip (Fin 5) (Fin 10) (Fin 0) \<noteq> Fin 10"
  by (simp add: Number_greaterThan_def clip_def)

text \<open>
  C1, amended: when the lower limit \<open>mn\<close> is greater than the upper limit \<open>mx\<close>,
  \<open>clip\<close> returns the upper limit \<open>mx\<close> for every value that is not NaN, and NaN for
  the value NaN.
\<close>

theorem clip_crossed_limits:
  assumes "Number_greaterThan mn mx"
  shows "clip val mn mx = (if val = NaN then NaN else mx)"
proof (cases "val = NaN")
  case True
  then show ?thesis by (simp add: clip_def)
next
  case False
  from assms have lt: "Number_lessThan mx mn"
    by (simp add: Number_greaterThan_def)
  then have nn: "mn \<noteq> NaN" "mx \<noteq> NaN"
    using lessThan_not_NaN by blast+
  have "Math_max val mn = mn \<or> Math_max val mn = val \<and> \<not> Number_lessThan val mn"
    using False nn by (cases val; cases mn) auto
  then have big: "Number_lessThan mx (Math_max val mn)"
  proof
    assume "Math_max val mn = mn"
    with lt show ?thesis by simp
  next
    assume h: "Math_max val mn = val \<and> \<not> Number_lessThan val mn"
    have "Number_lessThan mx val"
      using lt h False nn by (cases val; cases mn; cases mx) auto
    with h show ?thesis by simp
  qed
  then have "Math_min (Math_max val mn) mx = mx"
    using nn by (cases "Math_max val mn"; cases mx) auto
  with False show ?thesis by (simp add: clip_def)
qed

theorem clip_crossed_limits_witness:
  "Number_greaterThan (Fin 10) (Fin 0) \<and> clip (Fin 5) (Fin 10) (Fin 0) = Fin 0"
proof -
  have h: "Number_greaterThan (Fin 10) (Fin 0)"
    by (simp add: Number_greaterThan_def)
  show ?thesis
    using h clip_crossed_limits [OF h, of "Fin 5"] by simp
qed

section \<open>Claims about invert\<close>


section \<open>Claims about coin\<close>

text \<open>
  C6: whatever number at least 0 and below 1 the random generator draws, \<open>coin\<close> with
  odds 0 returns 0 and \<open>coin\<close> with odds 1 returns 1.
\<close>

theorem coin_boundary:
  assumes "0 \<le> u" and "u < 1"
  shows "coin (Fin u) (Some (Fin 0)) = Fin 0 \<and> coin (Fin u) (Some (Fin 1)) = Fin 1"
  using assms by (simp add: coin_def rf_def ToBoolean_def Number_subtract_def)

theorem coin_boundary_witness:
  "(0::real) \<le> 1 / 2 \<and> (1 / 2 :: real) < 1 \<and>
   coin (Fin (1 / 2)) (Some (Fin 0)) = Fin 0 \<and> coin (Fin (1 / 2)) (Some (Fin 1)) = Fin 1"
proof -
  have lo: "(0::real) \<le> 1 / 2" and hi: "(1 / 2 :: real) < 1"
    by simp_all
  show ?thesis
    using lo hi coin_boundary [OF lo hi] by simp
qed

section \<open>Claims about the moving average filter\<close>

lemma Lowpass_update_Inr:
  "\<exists>r h. Lowpass_update this val = Inr (r, this\<lparr>history := h\<rparr>)"
  by (auto simp add: Lowpass_update_def Let_def)

lemma Lowpass_feed_frame:
  "case Lowpass_feed this samples of
     Inl e \<Rightarrow> False
   | Inr (rs, this') \<Rightarrow> factor this' = factor this \<and> this' = this\<lparr>history := history this'\<rparr>"
proof (induction samples arbitrary: this)
  case Nil
  then show ?case by simp
next
  case (Cons v vs)
  obtain r h where u: "Lowpass_update this v = Inr (r, this\<lparr>history := h\<rparr>)"
    using Lowpass_update_Inr by blast
  show ?case
    using Cons [of "this\<lparr>history := h\<rparr>"] u
    by (auto split: sum.splits prod.splits)
qed

text \<open>
  C8: \<open>update\<close> never fails, and the instance it leaves differs from the one it found
  in the \<open>history\<close> field only: \<open>factor\<close> is the same. So after any stream of samples
  the instance still has the \<open>factor\<close> it was constructed with.
\<close>

theorem Lowpass_update_keeps_factor:
  "(case Lowpass_update this val of
      Inl e \<Rightarrow> False
    | Inr (r, this') \<Rightarrow>
        factor this' = factor this \<and> this' = this\<lparr>history := history this'\<rparr>) \<and>
   (case Lowpass_feed this samples of
      Inl e \<Rightarrow> False
    | Inr (rs, this') \<Rightarrow>
        factor this' = factor this \<and> this' = this\<lparr>history := history this'\<rparr>)"
proof
  show "case Lowpass_update this val of
      Inl e \<Rightarrow> False
    | Inr (r, this') \<Rightarrow>
        factor this' = factor this \<and> this' = this\<lparr>history := history this'\<rparr>"
    by (simp add: Lowpass_update_def Let_def)
  show "case Lowpass_feed this samples of
      Inl e \<Rightarrow> False
    | Inr (rs, this') \<Rightarrow>
        factor this' = factor this \<and> this' = this\<lparr>history := history this'\<rparr>"
    by (rule Lowpass_feed_frame)
qed

text \<open>
  C4: an instance constructed with no argument and one constructed with 0 are the
  instance constructed with 2, so a stream of samples fed to any of the three gives
  the same returned values, update by update, and leaves the same instance.
\<close>

theorem Lowpass_default_factor:
  "Lowpass_constructor None = Lowpass_constructor (Some (Fin 2)) \<and>
   Lowpass_constructor (Some (Fin 0)) = Lowpass_constructor (Some (Fin 2)) \<and>
   Lowpass_feed (Lowpass_constructor None) samples
     = Lowpass_feed (Lowpass_constructor (Some (Fin 2))) samples \<and>
   Lowpass_feed (Lowpass_constructor (Some (Fin 0))) samples
     = Lowpass_feed (Lowpass_constructor (Some (Fin 2))) samples"
  by (simp add: Lowpass_constructor_def ToBoolean_def)








section \<open>Properties of the rounding\<close>

lemma rne_of_int: "rne (of_int z) = z"
  by (simp add: rne_def)

lemma rne_floor: "\<lfloor>q\<rfloor> \<le> rne q \<and> rne q \<le> \<lfloor>q\<rfloor> + 1"
  by (simp add: rne_def Let_def)

lemma rne_mono:
  assumes "q1 \<le> q2"
  shows "rne q1 \<le> rne q2"
proof (cases "\<lfloor>q1\<rfloor> < \<lfloor>q2\<rfloor>")
  case True
  then show ?thesis
    using rne_floor [of q1] rne_floor [of q2] by linarith
next
  case False
  then have eq: "\<lfloor>q1\<rfloor> = \<lfloor>q2\<rfloor>"
    using floor_mono [OF assms] by linarith
  show ?thesis
    using assms by (auto simp add: rne_def Let_def eq)
qed

lemma rne_minus: "rne (- q) = - rne q"
proof (cases "q \<in> \<int>")
  case True
  then obtain z where "q = of_int z"
    by (auto elim: Ints_cases)
  then show ?thesis
    using rne_of_int [of z] rne_of_int [of "- z"] by simp
next
  case False
  then have ne: "of_int \<lfloor>q\<rfloor> \<noteq> q"
    by (metis Ints_of_int)
  then have fl: "\<lfloor>- q\<rfloor> = - \<lfloor>q\<rfloor> - 1"
    by (simp add: floor_minus ceiling_altdef)
  have "of_int \<lfloor>q\<rfloor> < q"
    using ne of_int_floor_le [of q] by linarith
  then show ?thesis
    by (auto simp add: rne_def Let_def fl)
qed

lemma expo_binade:
  assumes "r \<noteq> 0"
  shows "\<bar>r\<bar> < 2 powi (expo r + 1)" and "2 powi expo r \<le> \<bar>r\<bar> \<or> expo r = - 1022"
proof -
  define k where "k = \<lfloor>log 2 \<bar>r\<bar>\<rfloor>"
  have pos: "0 < \<bar>r\<bar>" using assms by simp
  have "2 powr (real_of_int k) \<le> \<bar>r\<bar> \<and> \<bar>r\<bar> < 2 powr (real_of_int k + 1)"
    using floor_log_eq_powr_iff [OF pos, of 2 k] by (simp add: k_def)
  then have b: "2 powi k \<le> \<bar>r\<bar>" "\<bar>r\<bar> < 2 powi (k + 1)"
    using powr_real_of_int' [of 2 k] powr_real_of_int' [of 2 "k + 1"] by simp_all
  have e: "expo r = max k (- 1022)"
    by (simp add: expo_def k_def)
  have "(2::real) powi (k + 1) \<le> 2 powi (expo r + 1)"
    by (intro power_int_increasing) (simp_all add: e)
  with b show "\<bar>r\<bar> < 2 powi (expo r + 1)" by linarith
  show "2 powi expo r \<le> \<bar>r\<bar> \<or> expo r = - 1022"
    using b(1) e by (cases "- 1022 \<le> k") (simp_all add: max_def)
qed

lemma expo_eqI:
  assumes "2 powi e \<le> \<bar>r\<bar>" and "\<bar>r\<bar> < 2 powi (e + 1)" and "- 1022 \<le> e"
  shows "expo r = e"
proof -
  have pos: "0 < \<bar>r\<bar>"
    using assms(1) zero_less_power_int [of "2::real" e] by linarith
  have "2 powr (real_of_int e) \<le> \<bar>r\<bar> \<and> \<bar>r\<bar> < 2 powr (real_of_int e + 1)"
    using assms powr_real_of_int' [of 2 e] powr_real_of_int' [of 2 "e + 1"] by simp
  then have "\<lfloor>log 2 \<bar>r\<bar>\<rfloor> = e"
    using floor_log_eq_powr_iff [OF pos, of 2 e] by simp
  then show ?thesis
    using assms(3) by (simp add: expo_def)
qed

lemma expo_subnormal:
  assumes "\<bar>r\<bar> < 2 powi (- 1022)" and "r \<noteq> 0"
  shows "expo r = - 1022"
proof (rule ccontr)
  assume "expo r \<noteq> - 1022"
  then have "- 1022 < expo r" "2 powi expo r \<le> \<bar>r\<bar>"
    using expo_binade(2) [OF assms(2)] by (simp_all add: expo_def)
  moreover have "(2::real) powi (- 1022) \<le> 2 powi expo r"
    using calculation(1) by (intro power_int_increasing) simp_all
  ultimately show False using assms by linarith
qed

lemma ulp_pos: "0 < ulp r"
  by (simp add: ulp_def)

lemma ulp_minus: "ulp (- r) = ulp r"
  by (simp add: ulp_def expo_def)

lemma ulp_times: "2 ^ 52 * ulp r = 2 powi expo r" "2 ^ 53 * ulp r = 2 powi (expo r + 1)"
proof -
  have "(2::real) powi (expo r - 52 + 52) = 2 powi (expo r - 52) * 2 powi 52"
    by (rule power_int_add) simp
  then show "2 ^ 52 * ulp r = 2 powi expo r"
    by (simp add: ulp_def)
  have "(2::real) powi (expo r - 52 + 53) = 2 powi (expo r - 52) * 2 powi 53"
    by (rule power_int_add) simp
  then show "2 ^ 53 * ulp r = 2 powi (expo r + 1)"
    by (simp add: ulp_def add.commute mult.commute)
qed

lemma nearest_zero: "nearest 0 = 0"
  by (simp add: nearest_def rne_def)

lemma nearest_minus: "nearest (- r) = - nearest r"
  by (simp add: nearest_def ulp_minus rne_minus)

lemma nearest_nonneg:
  assumes "0 \<le> r"
  shows "0 \<le> nearest r"
proof -
  have "0 \<le> r / ulp r"
    using assms ulp_pos [of r] by simp
  then have "rne (of_int 0) \<le> rne (r / ulp r)"
    by (intro rne_mono) simp
  then have "0 \<le> rne (r / ulp r)"
    by (simp only: rne_of_int)
  then show ?thesis
    using ulp_pos [of r] by (simp add: nearest_def)
qed

lemma nearest_upper:
  assumes "r \<noteq> 0"
  shows "nearest r \<le> 2 powi (expo r + 1)"
proof -
  have "r < 2 ^ 53 * ulp r"
    using expo_binade(1) [OF assms] ulp_times(2) [of r] by simp
  then have "r / ulp r \<le> of_int (2 ^ 53)"
    using ulp_pos [of r] by (simp add: field_simps)
  then have "rne (r / ulp r) \<le> rne (of_int (2 ^ 53))"
    by (rule rne_mono)
  then have "rne (r / ulp r) \<le> 2 ^ 53"
    by (simp only: rne_of_int)
  then have "real_of_int (rne (r / ulp r)) \<le> 2 ^ 53"
    by (metis of_int_le_iff of_int_numeral of_int_power)
  then have "nearest r \<le> 2 ^ 53 * ulp r"
    unfolding nearest_def using ulp_pos [of r] by (intro mult_right_mono) simp_all
  then show ?thesis
    using ulp_times(2) [of r] by simp
qed

lemma nearest_lower:
  assumes "2 powi expo r \<le> r"
  shows "2 powi expo r \<le> nearest r"
proof -
  have "2 ^ 52 * ulp r \<le> r"
    using assms ulp_times(1) [of r] by simp
  then have "of_int (2 ^ 52) \<le> r / ulp r"
    using ulp_pos [of r] by (simp add: field_simps)
  then have "rne (of_int (2 ^ 52)) \<le> rne (r / ulp r)"
    by (rule rne_mono)
  then have "2 ^ 52 \<le> rne (r / ulp r)"
    by (simp only: rne_of_int)
  then have "2 ^ 52 \<le> real_of_int (rne (r / ulp r))"
    by (metis of_int_le_iff of_int_numeral of_int_power)
  then have "2 ^ 52 * ulp r \<le> nearest r"
    unfolding nearest_def using ulp_pos [of r] by (intro mult_right_mono) simp_all
  then show ?thesis
    using ulp_times(1) [of r] by simp
qed

lemma expo_mono:
  assumes "0 < r" and "r \<le> s"
  shows "expo r \<le> expo s"
proof -
  have "log 2 \<bar>r\<bar> \<le> log 2 \<bar>s\<bar>"
    using assms by simp
  then have "\<lfloor>log 2 \<bar>r\<bar>\<rfloor> \<le> \<lfloor>log 2 \<bar>s\<bar>\<rfloor>"
    by (rule floor_mono)
  then show ?thesis
    by (simp add: expo_def)
qed

lemma nearest_mono_pos:
  assumes "0 < r" and "r \<le> s"
  shows "nearest r \<le> nearest s"
proof (cases "expo r = expo s")
  case True
  then have u: "ulp r = ulp s"
    by (simp add: ulp_def)
  have "r / ulp s \<le> s / ulp s"
    using assms(2) ulp_pos [of s] by (simp add: divide_right_mono)
  then have "rne (r / ulp s) \<le> rne (s / ulp s)"
    by (rule rne_mono)
  then show ?thesis
    unfolding nearest_def u using ulp_pos [of s] by (intro mult_right_mono) simp_all
next
  case False
  then have lt: "expo r < expo s"
    using expo_mono [OF assms] by simp
  have s: "0 < s" "s \<noteq> 0"
    using assms by simp_all
  have "- 1022 \<le> expo r"
    by (simp add: expo_def)
  then have "2 powi expo s \<le> s"
    using expo_binade(2) [OF s(2)] lt s(1) by auto
  then have "2 powi expo s \<le> nearest s"
    by (rule nearest_lower)
  moreover have "nearest r \<le> 2 powi (expo r + 1)"
    using assms(1) by (intro nearest_upper) simp
  moreover have "(2::real) powi (expo r + 1) \<le> 2 powi expo s"
    using lt by (intro power_int_increasing) simp_all
  ultimately show ?thesis
    by linarith
qed

lemma nearest_mono:
  assumes "r \<le> s"
  shows "nearest r \<le> nearest s"
proof -
  consider "0 < r" | "s < 0" | "r \<le> 0" "0 \<le> s"
    using assms by linarith
  then show ?thesis
  proof cases
    case 1
    then show ?thesis using assms by (rule nearest_mono_pos)
  next
    case 2
    then have "nearest (- s) \<le> nearest (- r)"
      using assms by (intro nearest_mono_pos) simp_all
    then show ?thesis by (simp add: nearest_minus)
  next
    case 3
    then have "0 \<le> nearest (- r)" "0 \<le> nearest s"
      by (simp_all add: nearest_nonneg)
    then show ?thesis by (simp add: nearest_minus)
  qed
qed

lemma binary64_mono:
  assumes "r \<le> s"
  shows "Number_lessEqual (binary64 r) (binary64 s)"
  using assms nearest_mono [OF assms]
  by (auto simp add: binary64_def Number_lessEqual_def)

lemma binary64_minus: "binary64 (- r) = Number_unaryMinus (binary64 r)"
  by (auto simp add: binary64_def nearest_minus)

lemma binary64_zero: "binary64 0 = Fin 0"
  by (simp add: binary64_def nearest_zero)

lemma binary64_eval:
  assumes "2 powi e \<le> \<bar>r\<bar>" and "\<bar>r\<bar> < 2 powi (e + 1)" and "- 1022 \<le> e"
    and "\<bar>r\<bar> < 2 ^ 1024 - 2 ^ 970"
  shows "binary64 r = Fin (of_int (rne (r / 2 powi (e - 52))) * 2 powi (e - 52))"
  using assms(4) expo_eqI [OF assms(1-3)]
  by (simp add: binary64_def nearest_def ulp_def)

lemma binary64_exact:
  assumes "2 powi e \<le> \<bar>r\<bar>" and "\<bar>r\<bar> < 2 powi (e + 1)" and "- 1022 \<le> e"
    and "\<bar>r\<bar> < 2 ^ 1024 - 2 ^ 970" and "r / 2 powi (e - 52) = of_int m"
  shows "binary64 r = Fin r"
proof -
  have "of_int m * 2 powi (e - 52) = r"
    using assms(5) by (simp add: field_simps)
  then show ?thesis
    using binary64_eval [OF assms(1-4)] by (simp add: assms(5) rne_of_int)
qed

lemma binary64_nat:
  assumes "n < 2 ^ 53"
  shows "binary64 (real n) = Fin (real n)"
proof (cases "n = 0")
  case True
  then show ?thesis by (simp add: binary64_zero)
next
  case False
  define e where "e = expo (real n)"
  have ne: "real n \<noteq> 0" using False by simp
  have "1 \<le> \<bar>real n\<bar>" using False by simp
  then have "0 \<le> log 2 \<bar>real n\<bar>" by simp
  then have e0: "0 \<le> e"
    by (simp add: e_def expo_def)
  then have lo: "2 powi e \<le> \<bar>real n\<bar>"
    using expo_binade(2) [OF ne] by (auto simp add: e_def)
  have hi: "\<bar>real n\<bar> < 2 powi (e + 1)"
    using expo_binade(1) [OF ne] by (simp add: e_def)
  have "real n < 2 ^ 53"
    using assms by (metis of_nat_less_iff of_nat_numeral of_nat_power)
  then have "(2::real) powi e < 2 powi 53"
    using lo by simp
  then have e52: "e \<le> 52"
    using power_int_increasing [of 53 e "2::real"] by (cases "e \<le> 52") auto
  have small: "\<bar>real n\<bar> < 2 ^ 1024 - 2 ^ 970"
    using \<open>real n < 2 ^ 53\<close> by simp
  have "(2::real) powi (e - 52) = inverse (2 ^ nat (52 - e))"
    using e52 power_int_minus [of "2::real" "52 - e"] by (simp add: power_int_def)
  then have "real n / 2 powi (e - 52) = of_int (int n * 2 ^ nat (52 - e))"
    by (simp add: field_simps)
  moreover have "- 1022 \<le> e"
    using e0 by simp
  ultimately show ?thesis
    using binary64_exact [OF lo hi _ small] by blast
qed

lemma double_zero: "double 0"
  by (simp add: double_def binary64_zero)

lemma double_one: "double 1"
  using binary64_nat [of 1] by (simp add: double_def)

lemma double_minus: "double r \<Longrightarrow> double (- r)"
  by (simp add: double_def binary64_minus)

lemma binary64_between:
  assumes "double c1" and "double c2" and "c1 \<le> r" and "r \<le> c2"
  shows "\<exists>v. binary64 r = Fin v \<and> c1 \<le> v \<and> v \<le> c2"
proof -
  have "Number_lessEqual (Fin c1) (binary64 r)" "Number_lessEqual (binary64 r) (Fin c2)"
    using binary64_mono [OF assms(3)] binary64_mono [OF assms(4)] assms(1,2)
    by (simp_all add: double_def)
  then show ?thesis
    by (cases "binary64 r") (simp_all add: Number_lessEqual_def)
qed

lemma Math_min_Fin: "Math_min (Fin a) (Fin b) = Fin (min a b)"
  by (simp add: min_def)

lemma Math_max_Fin: "Math_max (Fin a) (Fin b) = Fin (max a b)"
  by (simp add: max_def)

lemma in_closed_Fin: "in_closed (Fin lo) (Fin hi) (Fin v) \<longleftrightarrow> lo \<le> v \<and> v \<le> hi"
  by (auto simp add: in_closed_def Number_lessEqual_def)

lemma rf_binary64_Fin:
  assumes "b \<noteq> 0"
  shows "rf_binary64 (Fin u) (Fin a) (Some (Fin b))
         = binary64_add
             (binary64_multiply (Fin u) (binary64_subtract (Fin (max a b)) (Fin (min a b))))
             (Fin (min a b))"
  using assms
  by (simp add: rf_binary64_def ToBoolean_def Math_min_Fin Math_max_Fin Let_def
      del: Math_min.simps Math_max.simps)

lemma ri_binary64_rf: 
  "ri_binary64 random bound1 bound2 = Math_floor (rf_binary64 random bound1 bound2)"
  by (simp add: ri_binary64_def rf_binary64_def Let_def split: option.splits prod.splits)

lemma binary64_values:
  "binary64 (1 / 2) = Fin (1 / 2)"
  "binary64 (3 / 2) = Fin (3 / 2)"
  "binary64 (1 - 1 / 2 ^ 52) = Fin (1 - 1 / 2 ^ 52)"
  "binary64 (1 / 2 ^ 53) = Fin (1 / 2 ^ 53)"
  "binary64 (2 ^ 1023) = Fin (2 ^ 1023)"
  "binary64 (101 - 1 / 2 ^ 52) = Fin 101"
  "binary64 (1 + 1 / 2 ^ 53) = Fin 1"
  "binary64 (2 ^ 1024) = PosInf"
proof -
  show "binary64 (1 / 2) = Fin (1 / 2)"
    using binary64_exact [of "- 1" "1 / 2" "2 ^ 52"] by simp
  show "binary64 (3 / 2) = Fin (3 / 2)"
    using binary64_exact [of 0 "3 / 2" "3 * 2 ^ 51"] by simp
  show "binary64 (1 - 1 / 2 ^ 52) = Fin (1 - 1 / 2 ^ 52)"
    using binary64_exact [of "- 1" "1 - 1 / 2 ^ 52" "2 ^ 53 - 2"] by simp
  show "binary64 (1 / 2 ^ 53) = Fin (1 / 2 ^ 53)"
    using binary64_exact [of "- 53" "1 / 2 ^ 53" "2 ^ 52"] by simp
  show "binary64 (2 ^ 1023) = Fin (2 ^ 1023)"
    using binary64_exact [of 1023 "2 ^ 1023" "2 ^ 52"] by simp
  show "binary64 (101 - 1 / 2 ^ 52) = Fin 101"
    using binary64_eval [of 6 "101 - 1 / 2 ^ 52"] by (simp add: rne_def)
  show "binary64 (1 + 1 / 2 ^ 53) = Fin 1"
    using binary64_eval [of 0 "1 + 1 / 2 ^ 53"] by (simp add: rne_def)
  show "binary64 (2 ^ 1024) = PosInf"
    by (simp add: binary64_def)
qed

lemma binary64_numeral:
  assumes "(numeral k :: nat) < 2 ^ 53"
  shows "binary64 (numeral k) = Fin (numeral k)"
  using binary64_nat [OF assms] by simp

lemma binary64_one: "binary64 1 = Fin 1"
  using binary64_nat [of 1] by simp

lemmas binary64_small = binary64_zero binary64_one binary64_numeral

section \<open>Claims about average\<close>

lemma foldl_binary64_add:
  assumes "list_all double (running_sums s rs)"
  shows "foldl binary64_add (Fin s) (map Fin rs) = Fin (s + sum_list rs)"
  using assms
  by (induction rs arbitrary: s) (simp_all add: binary64_add_def double_def add.assoc)

text \<open>
  C7, as the specification words it, says that \<open>average\<close> returns the arithmetic mean
  of every non-empty sequence. Two sequences of doubles show that it does not. The sum of
  \<open>2 ^ 1023\<close> and \<open>2 ^ 1023\<close> overflows, and \<open>average\<close> returns the positive infinity
  where the mean is \<open>2 ^ 1023\<close>. The sum of 1 and \<open>1 / 2 ^ 53\<close> is rounded to 1, and
  \<open>average\<close> returns \<open>1 / 2\<close>, which is not the mean.
\<close>

theorem average_mean_counterexample:
  "double (2 ^ 1023) \<and>
   average_binary64 [Fin (2 ^ 1023), Fin (2 ^ 1023)] = Inr PosInf \<and>
   sum_list [2 ^ 1023, 2 ^ 1023] / real (length [2 ^ 1023, 2 ^ 1023 :: real]) = (2 ^ 1023 :: real) \<and>
   double 1 \<and> double (1 / 2 ^ 53) \<and>
   average_binary64 [Fin 1, Fin (1 / 2 ^ 53)] = Inr (Fin (1 / 2)) \<and>
   sum_list [1, 1 / 2 ^ 53] / real (length [1, 1 / 2 ^ 53 :: real]) \<noteq> (1 / 2 :: real)"
proof -
  note v = binary64_values
  have d: "double (2 ^ 1023)" "double 1" "double (1 / 2 ^ 53)"
    using v by (simp_all add: double_def binary64_small)
  have 1: "average_binary64 [Fin (2 ^ 1023), Fin (2 ^ 1023)] = Inr PosInf"
    using v by (simp add: average_binary64_def binary64_add_def binary64_divide_def
        binary64_small)
  have 2: "average_binary64 [Fin 1, Fin (1 / 2 ^ 53)] = Inr (Fin (1 / 2))"
    using v by (simp add: average_binary64_def binary64_add_def binary64_divide_def
        binary64_small)
  show ?thesis
    unfolding 1 2 using d by simp
qed

text \<open>
  C7, amended: \<open>average\<close> of the empty array is NaN, returned as a value and not raised
  as an error. On a non-empty array of finite numbers \<open>average\<close> returns their arithmetic
  mean when every running sum of the elements, taken from left to right, and the mean
  itself are doubles, so that no addition and not the division is rounded or overflows.
\<close>

theorem average_empty_and_exact_mean:
  "average_binary64 [] = Inr NaN \<and>
   (rs \<noteq> [] \<and> list_all double (running_sums 0 rs) \<and>
    double (sum_list rs / real (length rs)) \<longrightarrow>
    average_binary64 (map Fin rs) = Inr (Fin (sum_list rs / real (length rs))))"
  by (auto simp add: average_binary64_def binary64_divide_def foldl_binary64_add double_def)

theorem average_empty_and_exact_mean_witness:
  "[0, 2, 4, 6, 8, 10 :: real] \<noteq> [] \<and>
   list_all double (running_sums 0 [0, 2, 4, 6, 8, 10]) \<and>
   double (sum_list [0, 2, 4, 6, 8, 10] / real (length [0, 2, 4, 6, 8, 10 :: real])) \<and>
   average_binary64 [] = Inr NaN \<and>
   average_binary64 [Fin 0, Fin 2, Fin 4, Fin 6, Fin 8, Fin 10] = Inr (Fin 5)"
proof -
  have h: "list_all double (running_sums 0 [0, 2, 4, 6, 8, 10])"
    "double (sum_list [0, 2, 4, 6, 8, 10] / real (length [0, 2, 4, 6, 8, 10 :: real]))"
    by (simp_all add: double_def binary64_small)
  show ?thesis
    using h average_empty_and_exact_mean [of "[0, 2, 4, 6, 8, 10]"] by simp
qed

section \<open>Claims about the random generators\<close>

lemma double_finite:
  assumes "double r"
  shows "\<bar>r\<bar> < 2 ^ 1024 - 2 ^ 970" and "nearest r = r"
  using assms by (auto simp add: double_def binary64_def split: if_splits)

lemma nearest_exactI:
  assumes "r / ulp r = of_int m"
  shows "nearest r = r"
proof -
  have "of_int m * ulp r = r"
    using assms ulp_pos [of r] by (simp add: field_simps)
  then show ?thesis
    by (simp add: nearest_def assms rne_of_int)
qed

lemma ulp_grid: "\<exists>n. ulp r = 2 ^ n * 2 powi (- 1074)"
proof -
  have "0 \<le> expo r + 1022"
    by (simp add: expo_def)
  have "(2::real) powi (expo r - 52) = 2 powi (expo r + 1022) * 2 powi (- 1074)"
    using power_int_add [of "2::real" "expo r + 1022" "- 1074"] by simp
  also have "(2::real) powi (expo r + 1022) = 2 ^ nat (expo r + 1022)"
    using \<open>0 \<le> expo r + 1022\<close> by (simp add: power_int_def)
  finally show ?thesis
    unfolding ulp_def by blast
qed

lemma double_grid:
  assumes "double r"
  shows "\<exists>k. r = of_int k * 2 powi (- 1074)"
proof -
  obtain n where n: "ulp r = 2 ^ n * 2 powi (- 1074)"
    using ulp_grid by blast
  have "r = of_int (rne (r / ulp r)) * ulp r"
    using double_finite(2) [OF assms] by (simp add: nearest_def)
  then have "r = of_int (rne (r / ulp r) * 2 ^ n) * 2 powi (- 1074)"
    by (simp add: n)
  then show ?thesis by blast
qed

lemma grid_subnormal:
  assumes "r = of_int k * 2 powi (- 1074)" and "\<bar>r\<bar> < 2 powi (- 1022)"
  shows "nearest r = r"
proof (cases "r = 0")
  case True
  then show ?thesis by (simp add: nearest_zero)
next
  case False
  define g :: real where "g = 2 powi (- 1074)"
  have g: "0 < g" by (simp add: g_def)
  have "expo r = - 1022"
    using assms(2) False by (rule expo_subnormal)
  then have "ulp r = g"
    by (simp add: ulp_def g_def)
  moreover have "r = of_int k * g"
    using assms(1) by (simp only: g_def)
  ultimately have "r / ulp r = of_int k"
    using g by simp
  then show ?thesis by (rule nearest_exactI)
qed

lemma draw_below_one:
  assumes "double u" and "u < 1"
  shows "u \<le> 1 - 1 / 2 ^ 53"
proof (cases "1 / 2 \<le> u")
  case False
  then show ?thesis by simp
next
  case True
  have e: "expo u = - 1"
    using True assms(2) by (intro expo_eqI) simp_all
  then have ul: "ulp u = 1 / 2 ^ 53"
    by (simp add: ulp_def)
  define k where "k = rne (u / ulp u)"
  have u: "u = of_int k / 2 ^ 53"
    using double_finite(2) [OF assms(1)] by (simp add: nearest_def k_def ul)
  then have "real_of_int k < of_int (2 ^ 53)"
    using assms(2) by simp
  then have "k < 2 ^ 53"
    by (simp only: of_int_less_iff)
  then have "k \<le> 2 ^ 53 - 1"
    by simp
  then have "real_of_int k \<le> of_int (2 ^ 53 - 1)"
    by (simp only: of_int_le_iff)
  then show ?thesis
    unfolding u by (simp add: field_simps)
qed

lemma rne_cases: "rne q = \<lfloor>q\<rfloor> \<or> rne q = \<lfloor>q\<rfloor> + 1 \<and> 1 / 2 \<le> q - of_int \<lfloor>q\<rfloor>"
  by (simp add: rne_def Let_def)

lemma rne_below_half:
  assumes "of_int f < q" and "q < of_int f + 1 / 2"
  shows "rne q = f"
proof -
  have "\<lfloor>q\<rfloor> = f"
    using assms by (intro floor_unique) simp_all
  then show ?thesis
    using assms(2) by (simp add: rne_def)
qed

lemma scaled_below:
  assumes "0 \<le> u" and "u \<le> 1 - 1 / 2 ^ 53" and "0 < D"
    and "D = of_int k * 2 powi (- 1074)"
  shows "u * nearest D \<le> D \<and> nearest (u * nearest D) \<le> D"
proof (cases "nearest D \<le> D")
  case True
  have "0 \<le> nearest D"
    using assms(3) by (intro nearest_nonneg) simp
  then have "u * nearest D \<le> 1 * nearest D"
    using assms(2) by (intro mult_right_mono) simp_all
  then have le: "u * nearest D \<le> D"
    using True by simp
  then have "nearest (u * nearest D) \<le> nearest D"
    by (rule nearest_mono)
  then show ?thesis
    using True le by simp
next
  case False
  define U where "U = ulp D"
  define f where "f = \<lfloor>D / U\<rfloor>"
  define g where "g = of_int f * U"
  have U: "0 < U" by (simp add: U_def ulp_pos)
  have ne: "D \<noteq> 0" using assms(3) by simp
  have "\<not> \<bar>D\<bar> < 2 powi (- 1022)"
    using grid_subnormal [OF assms(4)] False by auto
  then have big: "2 powi (- 1022) \<le> D"
    using assms(3) by simp
  have normal: "2 powi expo D \<le> D"
    using expo_binade(2) [OF ne] big assms(3) by auto
  have lo: "2 ^ 52 * U \<le> D"
    using normal ulp_times(1) [of D] by (simp add: U_def)
  have hi: "D < 2 ^ 53 * U"
    using expo_binade(1) [OF ne] assms(3) ulp_times(2) [of D] by (simp add: U_def)
  have d: "nearest D = of_int (rne (D / U)) * U"
    by (simp add: nearest_def U_def)
  have "real_of_int f \<le> D / U"
    unfolding f_def by (rule of_int_floor_le)
  then have gD: "g \<le> D"
    using U by (simp add: g_def pos_le_divide_eq)
  have "rne (D / U) \<noteq> f"
    using False gD by (auto simp add: d g_def)
  then have up: "rne (D / U) = f + 1" and half: "1 / 2 \<le> D / U - of_int f"
    using rne_cases [of "D / U"] by (auto simp add: f_def)
  have dg: "nearest D = g + U"
    by (simp add: d up g_def algebra_simps)
  have mid: "g + U / 2 \<le> D"
    using half U by (simp add: g_def field_simps)
  have "of_int (2 ^ 52) \<le> D / U"
    using lo U by (simp add: field_simps)
  then have "2 ^ 52 \<le> f"
    unfolding f_def by (simp only: le_floor_iff)
  then have "of_int (2 ^ 52) \<le> real_of_int f"
    by (simp only: of_int_le_iff)
  then have f52: "2 ^ 52 * U \<le> g"
    using U by (simp add: g_def)
  have "D / U < of_int (2 ^ 53)"
    using hi U by (simp add: field_simps)
  then have "f < 2 ^ 53"
    unfolding f_def by (simp only: floor_less_iff)
  then have "f \<le> 2 ^ 53 - 1"
    by simp
  then have "real_of_int f \<le> of_int (2 ^ 53 - 1)"
    by (simp only: of_int_le_iff)
  then have g53: "g + U \<le> 2 ^ 53 * U"
    using U by (simp add: g_def algebra_simps)
  have eg: "expo g = expo D"
  proof (rule expo_eqI)
    show "2 powi expo D \<le> \<bar>g\<bar>"
      using f52 U ulp_times(1) [of D] by (simp add: U_def)
    show "\<bar>g\<bar> < 2 powi (expo D + 1)"
      using gD expo_binade(1) [OF ne] assms(3) f52 U by simp
    show "- 1022 \<le> expo D"
      by (simp add: expo_def)
  qed
  then have "ulp g = U"
    by (simp add: ulp_def U_def)
  then have "g / ulp g = of_int f"
    using U by (simp add: g_def)
  then have ng: "nearest g = g"
    by (rule nearest_exactI)
  define z where "z = u * nearest D"
  have "0 < g + U"
    using f52 U by simp
  have "z \<le> (1 - 1 / 2 ^ 53) * (g + U)"
    unfolding z_def dg using assms(2) \<open>0 < g + U\<close> by (intro mult_right_mono) simp_all
  moreover have "U / 2 < (g + U) / 2 ^ 53"
    using f52 U by (simp add: field_simps)
  ultimately have zlt: "z < g + U / 2"
    by (simp add: algebra_simps)
  then have zD: "z \<le> D"
    using mid by simp
  have "nearest z \<le> g"
  proof (cases "z \<le> g")
    case True
    then have "nearest z \<le> nearest g"
      by (rule nearest_mono)
    then show ?thesis by (simp add: ng)
  next
    case False
    then have gz: "g < z" by simp
    have zpos: "0 < z" using gz f52 U by simp
    have "expo z = expo D"
    proof (rule expo_eqI)
      show "2 powi expo D \<le> \<bar>z\<bar>"
        using gz f52 zpos ulp_times(1) [of D] by (simp add: U_def)
      show "\<bar>z\<bar> < 2 powi (expo D + 1)"
        using zlt g53 U zpos ulp_times(2) [of D] by (simp add: U_def)
      show "- 1022 \<le> expo D"
        by (simp add: expo_def)
    qed
    then have uz: "ulp z = U"
      by (simp add: ulp_def U_def)
    have "of_int f < z / U" "z / U < of_int f + 1 / 2"
      using gz zlt U by (simp_all add: g_def field_simps)
    then have "rne (z / U) = f"
      by (rule rne_below_half)
    then show ?thesis
      by (simp add: nearest_def uz g_def)
  qed
  then show ?thesis
    using zD gD by (simp add: z_def)
qed

lemma scaled_draw:
  assumes "0 \<le> u" and "u < 1" and "double u" and "lo < hi" and "double lo" and "double hi"
    and "hi - lo < 2 ^ 1024 - 2 ^ 970"
  shows "\<exists>v. binary64_add (binary64_multiply (Fin u) (binary64_subtract (Fin hi) (Fin lo)))
               (Fin lo) = Fin v \<and> lo \<le> v \<and> v \<le> hi"
proof -
  define D where "D = hi - lo"
  have D: "0 < D" "\<bar>D\<bar> < 2 ^ 1024 - 2 ^ 970"
    using assms(4,7) by (simp_all add: D_def)
  obtain k1 k2 where "hi = of_int k1 * 2 powi (- 1074)" "lo = of_int k2 * 2 powi (- 1074)"
    using double_grid [OF assms(6)] double_grid [OF assms(5)] by blast
  then have grid: "D = of_int (k1 - k2) * 2 powi (- 1074)"
    by (simp only: D_def of_int_diff left_diff_distrib)
  have sub: "binary64_subtract (Fin hi) (Fin lo) = Fin (nearest D)"
    using D(2) by (simp add: binary64_subtract_def Number_subtract_def binary64_def D_def)
  have u1: "u \<le> 1 - 1 / 2 ^ 53"
    using assms(3,2) by (rule draw_below_one)
  have sb: "u * nearest D \<le> D" "nearest (u * nearest D) \<le> D"
    using scaled_below [OF assms(1) u1 D(1) grid] by simp_all
  have "0 \<le> nearest D"
    using D(1) by (intro nearest_nonneg) simp
  then have z0: "0 \<le> u * nearest D"
    using assms(1) by simp
  then have "\<bar>u * nearest D\<bar> < 2 ^ 1024 - 2 ^ 970"
    using sb(1) D by simp
  then have mul: "binary64 (u * nearest D) = Fin (nearest (u * nearest D))"
    by (simp add: binary64_def)
  define p where "p = nearest (u * nearest D)"
  have p: "0 \<le> p" "p \<le> D"
    using z0 sb(2) by (simp_all add: p_def nearest_nonneg)
  have "lo \<le> p + lo" "p + lo \<le> hi"
    using p by (simp_all add: D_def)
  then obtain v where v: "binary64 (p + lo) = Fin v" "lo \<le> v" "v \<le> hi"
    using binary64_between [OF assms(5,6)] by blast
  show ?thesis
    using v by (simp add: sub binary64_multiply_def binary64_add_def mul p_def)
qed

text \<open>
  C2, as the specification words it, puts \<open>ri a b\<close> and \<open>rf a b\<close> in the half-open
  interval from the smaller to the larger bound, for all numbers. Four inputs, all of them
  doubles, show that it is not so. With the bounds 1/2 and 3/2 and the draw 0, \<open>ri\<close> is
  the floor of 1/2, which is 0 and below the smaller bound. With both bounds 1 the
  interval is empty, and \<open>rf\<close> returns 1. With the bounds 100 and 101 and the draw
  \<open>1 - 1 / 2 ^ 52\<close> the sum \<open>101 - 1 / 2 ^ 52\<close> is rounded to 101, the bound that the
  interval excludes. With the bounds \<open>- (2 ^ 1023)\<close> and \<open>2 ^ 1023\<close> the difference of
  the bounds overflows, and with the draw 0 the result is NaN.
\<close>

theorem random_in_range_counterexample:
  "double (1 / 2) \<and> double (3 / 2) \<and> ToBoolean (Fin (3 / 2)) \<and>
   \<not> in_half_open (Math_min (Fin (1 / 2)) (Fin (3 / 2))) (Math_max (Fin (1 / 2)) (Fin (3 / 2)))
       (ri_binary64 (Fin 0) (Fin (1 / 2)) (Some (Fin (3 / 2)))) \<and>
   double 1 \<and> ToBoolean (Fin 1) \<and>
   \<not> in_half_open (Math_min (Fin 1) (Fin 1)) (Math_max (Fin 1) (Fin 1))
       (rf_binary64 (Fin 0) (Fin 1) (Some (Fin 1))) \<and>
   double 100 \<and> double 101 \<and> double (1 - 1 / 2 ^ 52) \<and> ToBoolean (Fin 101) \<and>
   rf_binary64 (Fin (1 - 1 / 2 ^ 52)) (Fin 100) (Some (Fin 101)) = Fin 101 \<and>
   \<not> in_half_open (Math_min (Fin 100) (Fin 101)) (Math_max (Fin 100) (Fin 101))
       (rf_binary64 (Fin (1 - 1 / 2 ^ 52)) (Fin 100) (Some (Fin 101))) \<and>
   double (- (2 ^ 1023)) \<and> double (2 ^ 1023) \<and> ToBoolean (Fin (2 ^ 1023)) \<and>
   rf_binary64 (Fin 0) (Fin (- (2 ^ 1023))) (Some (Fin (2 ^ 1023))) = NaN"
proof -
  note v = binary64_values
  have d: "double (1 / 2)" "double (3 / 2)" "double 1" "double 100" "double 101"
    "double (1 - 1 / 2 ^ 52)" "double (2 ^ 1023)" "double (- (2 ^ 1023))"
    using v double_minus [of "2 ^ 1023"] by (simp_all add: double_def binary64_small)
  have 1: "ri_binary64 (Fin 0) (Fin (1 / 2)) (Some (Fin (3 / 2))) = Fin 0"
    using v by (simp add: ri_binary64_def ToBoolean_def binary64_add_def binary64_multiply_def
        binary64_subtract_def Number_subtract_def binary64_small)
  have 2: "rf_binary64 (Fin 0) (Fin 1) (Some (Fin 1)) = Fin 1"
    using v by (simp add: rf_binary64_def ToBoolean_def binary64_add_def binary64_multiply_def
        binary64_subtract_def Number_subtract_def binary64_small)
  have 3: "rf_binary64 (Fin (1 - 1 / 2 ^ 52)) (Fin 100) (Some (Fin 101)) = Fin 101"
    using v by (simp add: rf_binary64_def ToBoolean_def binary64_add_def binary64_multiply_def
        binary64_subtract_def Number_subtract_def binary64_small)
  have 4: "rf_binary64 (Fin 0) (Fin (- (2 ^ 1023))) (Some (Fin (2 ^ 1023))) = NaN"
    using v by (simp add: rf_binary64_def ToBoolean_def binary64_add_def binary64_multiply_def
        binary64_subtract_def Number_subtract_def binary64_small)
  show ?thesis
    unfolding 1 2 3 4 using d
    by (simp add: ToBoolean_def in_half_open_def Number_lessEqual_def)
qed

text \<open>
  C2, amended: let the bounds \<open>a\<close> and \<open>b\<close> be doubles and different, \<open>b\<close> not zero,
  their difference \<open>max a b - min a b\<close> below \<open>2 ^ 1024 - 2 ^ 970\<close>, so that it does
  not overflow, and the draw a double at least 0 and below 1. Then \<open>rf a b\<close> lies in the
  closed interval from the smaller bound to the larger one, and \<open>ri a b\<close> is a whole
  number in the closed interval from the floor of the smaller bound to the larger bound.
  The larger bound itself can be returned.
\<close>

theorem random_in_range:
  assumes "0 \<le> u" and "u < 1" and "double u" and "b \<noteq> 0" and "a \<noteq> b"
    and "double a" and "double b" and "max a b - min a b < 2 ^ 1024 - 2 ^ 970"
  shows "in_closed (Math_min (Fin a) (Fin b)) (Math_max (Fin a) (Fin b))
           (rf_binary64 (Fin u) (Fin a) (Some (Fin b))) \<and>
         in_closed (Math_floor (Math_min (Fin a) (Fin b))) (Math_max (Fin a) (Fin b))
           (ri_binary64 (Fin u) (Fin a) (Some (Fin b))) \<and>
         Math_floor (ri_binary64 (Fin u) (Fin a) (Some (Fin b)))
           = ri_binary64 (Fin u) (Fin a) (Some (Fin b))"
proof -
  let ?lo = "min a b" and ?hi = "max a b"
  have "?lo < ?hi" using assms(5) by (simp add: min_def max_def)
  moreover have "double ?lo" "double ?hi"
    using assms(6,7) by (simp_all add: min_def max_def)
  ultimately obtain v where
    v: "rf_binary64 (Fin u) (Fin a) (Some (Fin b)) = Fin v" "?lo \<le> v" "v \<le> ?hi"
    using scaled_draw [OF assms(1-3) _ _ _ assms(8)] rf_binary64_Fin [OF assms(4)]
    by metis
  have "\<lfloor>?lo\<rfloor> \<le> \<lfloor>v\<rfloor>" using v(2) by (rule floor_mono)
  then have "(of_int \<lfloor>?lo\<rfloor> :: real) \<le> of_int \<lfloor>v\<rfloor>" by simp
  moreover have "of_int \<lfloor>v\<rfloor> \<le> ?hi"
    using v(3) of_int_floor_le [of v] by linarith
  ultimately show ?thesis
    using v by (simp add: ri_binary64_rf Math_min_Fin Math_max_Fin in_closed_Fin
        del: Math_min.simps Math_max.simps)
qed

theorem random_in_range_witness:
  "(0::real) \<le> 1 / 2 \<and> (1 / 2 :: real) < 1 \<and> double (1 / 2) \<and> (2000::real) \<noteq> 0 \<and>
   (20::real) \<noteq> 2000 \<and> double 20 \<and> double 2000 \<and>
   max 20 2000 - min 20 2000 < (2 ^ 1024 - 2 ^ 970 :: real) \<and>
   rf_binary64 (Fin (1 / 2)) (Fin 20) (Some (Fin 2000)) = Fin 1010 \<and>
   ri_binary64 (Fin (1 / 2)) (Fin 20) (Some (Fin 2000)) = Fin 1010 \<and>
   in_closed (Fin 20) (Fin 2000) (Fin 1010)"
proof -
  note v = binary64_values
  have h: "(0::real) \<le> 1 / 2" "(1 / 2 :: real) < 1" "double (1 / 2)" "(2000::real) \<noteq> 0"
    "(20::real) \<noteq> 2000" "double 20" "double 2000"
    "max 20 2000 - min 20 2000 < (2 ^ 1024 - 2 ^ 970 :: real)"
    using v by (simp_all add: double_def binary64_small)
  have e: "rf_binary64 (Fin (1 / 2)) (Fin 20) (Some (Fin 2000)) = Fin 1010"
    "ri_binary64 (Fin (1 / 2)) (Fin 20) (Some (Fin 2000)) = Fin 1010"
    using v by (simp_all add: rf_binary64_def ri_binary64_def ToBoolean_def binary64_add_def
        binary64_multiply_def binary64_subtract_def Number_subtract_def binary64_small)
  show ?thesis
    using h e random_in_range [OF h] by simp
qed

section \<open>Claims about the polar coordinates\<close>

lemma rounded_nonneg:
  assumes "Number_greaterEqual a (Fin 0)"
  shows "Number_greaterEqual (rounded a) (Fin 0)"
proof (cases a)
  case (Fin r)
  then have "0 \<le> r"
    using assms by (simp add: Number_greaterEqual_def)
  then have "Number_lessEqual (binary64 0) (binary64 r)"
    by (rule binary64_mono)
  then show ?thesis
    using Fin by (cases "binary64 r")
      (simp_all add: binary64_zero Number_lessEqual_def Number_greaterEqual_def)
qed (use assms in \<open>simp_all add: Number_greaterEqual_def\<close>)

lemma square_nonneg:
  assumes "a \<noteq> NaN"
  shows "Number_greaterEqual (binary64_multiply a a) (Fin 0)"
  unfolding binary64_multiply_def using assms
  by (intro rounded_nonneg) (cases a; simp add: Number_greaterEqual_def)

lemma add_nonneg:
  assumes "Number_greaterEqual a (Fin 0)" and "Number_greaterEqual b (Fin 0)"
  shows "Number_greaterEqual (binary64_add a b) (Fin 0)"
  unfolding binary64_add_def using assms
  by (intro rounded_nonneg) (cases a; cases b; simp add: Number_greaterEqual_def)

lemma sqrt_nonneg:
  assumes "Number_greaterEqual a (Fin 0)"
  shows "Number_greaterEqual (binary64_sqrt a) (Fin 0)"
  unfolding binary64_sqrt_def using assms
  by (intro rounded_nonneg) (cases a; simp add: Number_greaterEqual_def)

lemma radius_nonneg:
  assumes "px \<noteq> NaN" and "py \<noteq> NaN"
  shows "Number_greaterEqual
     (binary64_sqrt (binary64_add (binary64_multiply px px) (binary64_multiply py py))) (Fin 0)"
  by (intro sqrt_nonneg add_nonneg square_nonneg assms)

lemma double_PI: "double (884279719003555 / 2 ^ 48)" "double (884279719003555 / 2 ^ 47)"
proof -
  show "double (884279719003555 / 2 ^ 48)"
    using binary64_exact [of 1 "884279719003555 / 2 ^ 48" "884279719003555 * 8"]
    by (simp add: double_def)
  show "double (884279719003555 / 2 ^ 47)"
    using binary64_exact [of 2 "884279719003555 / 2 ^ 47" "884279719003555 * 8"]
    by (simp add: double_def)
qed

lemma two_PI: "binary64_multiply (Fin 2) Math_PI = Fin (884279719003555 / 2 ^ 47)"
  using double_PI(2) by (simp add: binary64_multiply_def Math_PI_def double_def)

lemma angle_range:
  assumes "in_closed (Number_unaryMinus Math_PI) Math_PI t"
  shows "in_closed (Fin 0) (binary64_multiply (Fin 2) Math_PI)
     (if Number_lessThan t (Fin 0)
      then binary64_add t (binary64_multiply (Fin 2) Math_PI)
      else t)"
proof -
  let ?p = "884279719003555 / 2 ^ 48 :: real"
  obtain r where r: "t = Fin r" "- ?p \<le> r" "r \<le> ?p"
    using assms by (cases t) (simp_all add: in_closed_def Number_lessEqual_def Math_PI_def)
  have tp: "2 * ?p = 884279719003555 / 2 ^ 47"
    by simp
  show ?thesis
  proof (cases "r < 0")
    case True
    then have "?p \<le> r + 2 * ?p" "r + 2 * ?p \<le> 2 * ?p"
      using r(2) by simp_all
    then obtain v where v: "binary64 (r + 2 * ?p) = Fin v" "?p \<le> v" "v \<le> 2 * ?p"
      using binary64_between [OF double_PI(1) double_PI(2) [folded tp]] by blast
    then show ?thesis
      using True r(1) tp
      by (simp add: two_PI binary64_add_def in_closed_Fin)
  next
    case False
    then show ?thesis
      using r by (simp add: two_PI in_closed_Fin)
  qed
qed

lemma arctan_le_self:
  assumes "0 \<le> t"
  shows "arctan t \<le> t"
proof -
  let ?f = "\<lambda>x. x - arctan x"
  have "\<exists>y. (?f has_real_derivative y) (at u) \<and> 0 \<le> y" if "0 \<le> u" for u :: real
  proof (intro exI conjI)
    show "(?f has_real_derivative 1 - inverse (1 + u\<^sup>2)) (at u)"
      by (auto intro!: derivative_eq_intros)
    have "1 \<le> 1 + u\<^sup>2" by simp
    then have "inverse (1 + u\<^sup>2) \<le> 1"
      by (rule inverse_le_1_iff [THEN iffD2, OF disjI2])
    then show "0 \<le> 1 - inverse (1 + u\<^sup>2)" by simp
  qed
  then have "?f 0 \<le> ?f t"
    by (intro DERIV_nonneg_imp_nondecreasing [OF assms]) simp
  then show ?thesis by simp
qed

lemma arctan_ge:
  assumes "0 \<le> t"
  shows "t / (1 + t\<^sup>2) \<le> arctan t"
proof -
  let ?s = "arctan t"
  have s: "0 \<le> ?s" using assms by simp
  have "sin ?s * cos ?s = t / (1 + t\<^sup>2)"
  proof -
    have "sqrt (1 + t\<^sup>2) * sqrt (1 + t\<^sup>2) = 1 + t\<^sup>2"
      by simp
    then show ?thesis
      by (simp add: sin_arctan cos_arctan)
  qed
  moreover have "0 \<le> sin ?s"
    using s arctan_ubound [of t] pi_gt_zero by (intro sin_ge_zero) linarith+
  then have "sin ?s * cos ?s \<le> sin ?s * 1"
    by (intro mult_left_mono) simp_all
  moreover have "sin ?s \<le> ?s"
    using s by (rule sin_x_le_x)
  ultimately show ?thesis by linarith
qed

lemma binary64_arctan_tiny: "binary64 (arctan (1 / 2 ^ 60)) = Fin (1 / 2 ^ 60)"
proof -
  let ?t = "1 / 2 ^ 60 :: real"
  have lo: "?t - 1 / 2 ^ 120 \<le> arctan ?t"
  proof -
    have "?t - 1 / 2 ^ 120 \<le> ?t / (1 + ?t\<^sup>2)"
      by (simp add: field_simps)
    moreover have "?t / (1 + ?t\<^sup>2) \<le> arctan ?t"
      by (rule arctan_ge) simp
    ultimately show ?thesis by (rule order_trans)
  qed
  have hi: "arctan ?t \<le> ?t"
    by (rule arctan_le_self) simp
  have L: "binary64 (?t - 1 / 2 ^ 120) = Fin ?t"
    using binary64_eval [of "- 61" "?t - 1 / 2 ^ 120"] by (simp add: rne_def)
  have U: "binary64 ?t = Fin ?t"
    using binary64_exact [of "- 60" ?t "2 ^ 52"] by simp
  have "Number_lessEqual (Fin ?t) (binary64 (arctan ?t))"
    "Number_lessEqual (binary64 (arctan ?t)) (Fin ?t)"
    using binary64_mono [OF lo] binary64_mono [OF hi] by (simp_all only: L U)
  then show ?thesis
    by (cases "binary64 (arctan ?t)") (simp_all add: Number_lessEqual_def)
qed

lemma nearest_atan2_tiny: "nearest_atan2 (Fin (- (1 / 2 ^ 60))) (Fin 1) = Fin (- (1 / 2 ^ 60))"
proof -
  have "atan2 (- (1 / 2 ^ 60)) 1 = - arctan (1 / 2 ^ 60)"
    by (simp add: atan2_def arctan_minus)
  then have "rounded (exact_atan2 (Fin (- (1 / 2 ^ 60))) (Fin 1)) = Fin (- (1 / 2 ^ 60))"
    using binary64_arctan_tiny by (simp add: binary64_minus)
  then show ?thesis
    by (simp add: nearest_atan2_def Math_PI_def)
qed

lemma nearest_atan2_range:
  assumes "b \<noteq> NaN" and "a \<noteq> NaN"
  shows "in_closed (Number_unaryMinus Math_PI) Math_PI (nearest_atan2 b a)"
proof -
  have "exact_atan2 b a \<noteq> NaN"
    using assms by (cases b; cases a) simp_all
  then have "rounded (exact_atan2 b a) \<noteq> NaN"
    by (cases "exact_atan2 b a") (simp_all add: binary64_def)
  then show ?thesis
    by (cases "rounded (exact_atan2 b a)")
      (simp_all add: nearest_atan2_def Math_PI_def in_closed_def Number_lessEqual_def)
qed

lemma Math_sqrt_finite: "Math_sqrt (Fin a) \<noteq> PosInf"
  by simp

text \<open>
  C5, as the specification words it, holds for every \<open>x\<close> and \<open>y\<close>: the radius is
  the square root of \<open>x\<^sup>2 + y\<^sup>2\<close> and at least 0, and the angle lies in the half-open
  interval from 0 to \<open>2 * pi\<close>. Three inputs show that it is not so. On NaN the radius
  and the angle are NaN, which is not at least 0 and in no interval. At the point
  \<open>(2 ^ 600, 2 ^ 600)\<close> the squares overflow and the radius is the positive infinity,
  where the square root of the sum of the squares is finite. At the point
  \<open>(1, - (1 / 2 ^ 60))\<close> the angle \<open>- (1 / 2 ^ 60)\<close> is negative, and the sum of it and
  \<open>2 * Math_PI\<close> is rounded to \<open>2 * Math_PI\<close>, the bound that the interval excludes.
\<close>

theorem toPolar_range_counterexample:
  "\<not> Number_greaterEqual (radius (toPolar_binary64 nearest_atan2 NaN (Fin 0))) (Fin 0) \<and>
   \<not> in_half_open (Fin 0) (binary64_multiply (Fin 2) Math_PI)
       (angle (toPolar_binary64 nearest_atan2 NaN (Fin 0))) \<and>
   double (2 ^ 600) \<and>
   radius (toPolar_binary64 nearest_atan2 (Fin (2 ^ 600)) (Fin (2 ^ 600))) = PosInf \<and>
   Math_sqrt (Number_add (Number_multiply (Fin (2 ^ 600)) (Fin (2 ^ 600)))
                (Number_multiply (Fin (2 ^ 600)) (Fin (2 ^ 600)))) \<noteq> PosInf \<and>
   double 1 \<and> double (- (1 / 2 ^ 60)) \<and>
   angle (toPolar_binary64 nearest_atan2 (Fin 1) (Fin (- (1 / 2 ^ 60))))
     = binary64_multiply (Fin 2) Math_PI \<and>
   \<not> in_half_open (Fin 0) (binary64_multiply (Fin 2) Math_PI)
       (angle (toPolar_binary64 nearest_atan2 (Fin 1) (Fin (- (1 / 2 ^ 60)))))"
proof -
  have d: "double (2 ^ 600)" "double 1" "double (- (1 / 2 ^ 60))"
    using binary64_exact [of 600 "2 ^ 600" "2 ^ 52"] binary64_one
      binary64_exact [of "- 60" "- (1 / 2 ^ 60)" "- (2 ^ 52)"]
    by (simp_all add: double_def)
  have 1: "toPolar_binary64 nearest_atan2 NaN (Fin 0) = \<lparr>radius = NaN, angle = NaN\<rparr>"
    by (simp add: toPolar_binary64_def Math_atan2_def binary64_multiply_def binary64_add_def
        binary64_sqrt_def)
  have n1: "\<not> Number_greaterEqual (radius (toPolar_binary64 nearest_atan2 NaN (Fin 0))) (Fin 0)"
    and n2: "\<not> in_half_open (Fin 0) (binary64_multiply (Fin 2) Math_PI)
       (angle (toPolar_binary64 nearest_atan2 NaN (Fin 0)))"
    unfolding 1 by (simp_all add: Number_greaterEqual_def in_half_open_def)
  have 2: "radius (toPolar_binary64 nearest_atan2 (Fin (2 ^ 600)) (Fin (2 ^ 600))) = PosInf"
    by (simp add: toPolar_binary64_def Let_def binary64_multiply_def binary64_add_def
        binary64_sqrt_def binary64_def)
  have "\<exists>a. Number_add (Number_multiply (Fin (2 ^ 600)) (Fin (2 ^ 600)))
                (Number_multiply (Fin (2 ^ 600)) (Fin (2 ^ 600))) = Fin a"
    by simp
  then have sq: "Math_sqrt (Number_add (Number_multiply (Fin (2 ^ 600)) (Fin (2 ^ 600)))
                (Number_multiply (Fin (2 ^ 600)) (Fin (2 ^ 600)))) \<noteq> PosInf"
    using Math_sqrt_finite by metis
  have "binary64 (884279719003555 / 2 ^ 47 - 1 / 2 ^ 60) = Fin (884279719003555 / 2 ^ 47)"
    using binary64_eval [of 2 "884279719003555 / 2 ^ 47 - 1 / 2 ^ 60"] by (simp add: rne_def)
  then have 3: "angle (toPolar_binary64 nearest_atan2 (Fin 1) (Fin (- (1 / 2 ^ 60))))
     = binary64_multiply (Fin 2) Math_PI"
    using nearest_atan2_tiny
    by (simp add: toPolar_binary64_def Let_def Math_atan2_def two_PI binary64_add_def)
  have n3: "\<not> in_half_open (Fin 0) (binary64_multiply (Fin 2) Math_PI)
       (angle (toPolar_binary64 nearest_atan2 (Fin 1) (Fin (- (1 / 2 ^ 60)))))"
    unfolding 3 by (simp add: two_PI in_half_open_def)
  show ?thesis
    by (intro conjI n1 n2 d 2 sq 3 n3)
qed

text \<open>
  C5, amended: let \<open>x\<close> and \<open>y\<close> be other than NaN (finite or infinite), and let the
  \<^verbatim>\<open>Math.atan2\<close> of the platform return at these arguments a value between
  \<open>- Math_PI\<close> and \<open>Math_PI\<close>. Then the radius that \<open>toPolar\<close> returns is the square
  root of \<open>x * x + y * y\<close> as the program computes it, each operation rounded, and is at
  least 0 (the positive infinity included); the angle is \<^verbatim>\<open>Math.atan2(y, x)\<close>, plus
  \<open>2 * Math_PI\<close> when that is negative, and lies in the closed interval from 0 to
  \<open>2 * Math_PI\<close>.
\<close>

theorem toPolar_range:
  assumes "px \<noteq> NaN" and "py \<noteq> NaN"
    and "in_closed (Number_unaryMinus Math_PI) Math_PI (platform py px)"
  shows "radius (toPolar_binary64 platform px py)
           = binary64_sqrt (binary64_add (binary64_multiply px px) (binary64_multiply py py)) \<and>
         Number_greaterEqual (radius (toPolar_binary64 platform px py)) (Fin 0) \<and>
         angle (toPolar_binary64 platform px py)
           = (if Number_lessThan (Math_atan2 platform py px) (Fin 0)
              then binary64_add (Math_atan2 platform py px) (binary64_multiply (Fin 2) Math_PI)
              else Math_atan2 platform py px) \<and>
         in_closed (Fin 0) (binary64_multiply (Fin 2) Math_PI)
           (angle (toPolar_binary64 platform px py))"
proof -
  have "Math_atan2 platform py px = platform py px"
    using assms(1,2) by (simp add: Math_atan2_def)
  then show ?thesis
    using radius_nonneg [OF assms(1,2)] angle_range [OF assms(3)]
    by (simp add: toPolar_binary64_def Let_def)
qed

theorem toPolar_range_witness:
  "Fin 3 \<noteq> NaN \<and> Fin 4 \<noteq> NaN \<and>
   in_closed (Number_unaryMinus Math_PI) Math_PI (nearest_atan2 (Fin 4) (Fin 3)) \<and>
   radius (toPolar_binary64 nearest_atan2 (Fin 3) (Fin 4)) = Fin 5 \<and>
   Number_greaterEqual (radius (toPolar_binary64 nearest_atan2 (Fin 3) (Fin 4))) (Fin 0) \<and>
   in_closed (Fin 0) (binary64_multiply (Fin 2) Math_PI)
     (angle (toPolar_binary64 nearest_atan2 (Fin 3) (Fin 4)))"
proof -
  have h: "Fin 3 \<noteq> NaN" "Fin 4 \<noteq> NaN"
    "in_closed (Number_unaryMinus Math_PI) Math_PI (nearest_atan2 (Fin 4) (Fin 3))"
    by (simp_all add: nearest_atan2_range)
  have "sqrt 25 = sqrt (5\<^sup>2)"
    by simp
  then have "sqrt 25 = 5"
    by (simp only: real_sqrt_abs abs_numeral)
  then have r: "radius (toPolar_binary64 nearest_atan2 (Fin 3) (Fin 4)) = Fin 5"
    by (simp add: toPolar_binary64_def Let_def binary64_multiply_def binary64_add_def
        binary64_sqrt_def binary64_small)
  show ?thesis
    using h r toPolar_range [where platform = nearest_atan2, OF h] by blast
qed

end
